theory Spec2Isabelle
  imports Main "HOL-Library.Word" "HOL-Library.Multiset" "HOL-Library.Sublist"
begin

section \<open>Data model\<close>

text \<open>
  The tracker of \<^verbatim>\<open>src/main.py\<close> talks to a chain backend (web3) and works on the
  log entries it returns. A log entry carries its topics (each a \<^verbatim>\<open>HexBytes\<close> value),
  its data (\<^verbatim>\<open>HexBytes\<close>) and its block number. Python integers are unbounded, so block
  numbers, amounts and balances are \<^typ>\<open>int\<close>.
\<close>

type_synonym bytes = "8 word list"

record raw_log =
  topics :: "bytes list"
  data :: bytes
  blockNumber :: int

text \<open>
  Exceptions are values. \<open>IndexError\<close> and \<open>ValueError\<close> are the two the decoding lines
  can raise, \<open>TypeError\<close> is what \<^verbatim>\<open>list.extend\<close> raises on an argument that is not
  iterable, and anything the backend raises is a \<open>BackendError\<close>. All of them are of class
  \<^verbatim>\<open>Exception\<close>, so every \<^verbatim>\<open>except Exception\<close> handler catches every value of this type.
  A cancellation is no \<^verbatim>\<open>Exception\<close> (\<^verbatim>\<open>CancelledError\<close> derives from
  \<^verbatim>\<open>BaseException\<close>): a query that is itself cancelled is not modelled, and a cancelled
  task of \<^verbatim>\<open>asyncio.gather\<close> is a result of its own, see \<open>gather_result\<close>.
\<close>

datatype exn = IndexError | ValueError | TypeError | BackendError string

text \<open>
  The backend, as the three calls the scanning code makes on \<^verbatim>\<open>self.web3.eth\<close>:
  \<^verbatim>\<open>block_number\<close>, \<^verbatim>\<open>get_logs({'fromBlock': a, 'toBlock': b, ...})\<close> and
  \<^verbatim>\<open>get_block(n)['timestamp']\<close>. Each call either returns or raises.
\<close>

record web3 =
  block_number :: "exn + int"
  get_logs :: "int \<Rightarrow> int \<Rightarrow> exn + raw_log list"
  get_block :: "int \<Rightarrow> exn + int"

text \<open>The backend calls a query makes, in the order it makes them.\<close>

datatype call = GetLogs int int | GetBlock int

text \<open>
  The balances dictionary is a \<^verbatim>\<open>defaultdict(int)\<close>. Python dictionaries keep their keys
  in insertion order, and \<^verbatim>\<open>sorted\<close> sees that order, so the ledger is an association
  list in insertion order.
\<close>

type_synonym ledger = "(string \<times> int) list"

text \<open>
  \<^verbatim>\<open>balances[k] = f(balances[k])\<close> on a \<^verbatim>\<open>defaultdict(int)\<close>: an existing key keeps
  its position, a missing key is read as 0 and appended.
\<close>

fun dict_update :: "string \<Rightarrow> (int \<Rightarrow> int) \<Rightarrow> ledger \<Rightarrow> ledger" where
  "dict_update k f [] = [(k, f 0)]"
| "dict_update k f ((k', v) # kvs) =
     (if k = k' then (k', f v) # kvs else (k', v) # dict_update k f kvs)"

text \<open>The result of the last-activity query: an ISO-8601 string or the string \<^verbatim>\<open>'N/A'\<close>.
  \<open>Iso ts\<close> stands for \<^verbatim>\<open>datetime.fromtimestamp(ts, timezone.utc).isoformat()\<close>, which is
  never the string \<^verbatim>\<open>'N/A'\<close>.\<close>

datatype date_str = Iso int | NA

section \<open>Hex strings\<close>

text \<open>
  \<^verbatim>\<open>HexBytes.hex()\<close> (the hexbytes release web3 v6 depends on): the string \<^verbatim>\<open>'0x'\<close>
  followed by two lower-case hex digits per byte.
\<close>

definition hex_digit :: "nat \<Rightarrow> char" where
  "hex_digit n = ''0123456789abcdef'' ! n"

definition hex_byte :: "8 word \<Rightarrow> string" where
  "hex_byte w = [hex_digit (unat w div 16), hex_digit (unat w mod 16)]"

definition hexbytes_hex :: "bytes \<Rightarrow> string" where
  "hexbytes_hex bs = ''0x'' @ concat (map hex_byte bs)"

text \<open>
  \<^verbatim>\<open>int(s, 16)\<close> on a string with no sign, blank or underscore (the strings
  \<^verbatim>\<open>.hex()\<close> produces): an optional \<^verbatim>\<open>0x\<close> prefix, then at least one hex digit;
  anything else raises \<open>ValueError\<close>.
\<close>

definition hex_value :: "char \<Rightarrow> int option" where
  "hex_value c =
     (if c \<in> set ''0123456789'' then Some (of_char c - 48)
      else if c \<in> set ''abcdef'' then Some (of_char c - 87)
      else if c \<in> set ''ABCDEF'' then Some (of_char c - 55)
      else None)"

fun digits16 :: "int \<Rightarrow> string \<Rightarrow> exn + int" where
  "digits16 acc [] = Inr acc"
| "digits16 acc (c # cs) =
     (case hex_value c of
        None \<Rightarrow> Inl ValueError
      | Some d \<Rightarrow> digits16 (16 * acc + d) cs)"

definition py_int16 :: "string \<Rightarrow> exn + int" where
  "py_int16 s =
     (let body = (if take 2 s = ''0x'' then drop 2 s else s)
      in if body = [] then Inl ValueError else digits16 0 body)"

section \<open>Scanning the window: \<^verbatim>\<open>get_all_transfer_events\<close>\<close>

definition BLOCK_RANGE :: int where
  "BLOCK_RANGE = 50000"

text \<open>
  The \<^verbatim>\<open>while start_block > end_block_limit\<close> loop of lines 76-79: the block ranges
  \<open>(end_block, start_block)\<close> handed to \<^verbatim>\<open>get_transfer_events\<close>, in the order the
  tasks are appended.
\<close>

function tasks_loop :: "int \<Rightarrow> int \<Rightarrow> (int \<times> int) list" where
  "tasks_loop start_block end_block_limit =
     (if start_block > end_block_limit then
        (let end_block = max (start_block - BLOCK_RANGE + 1) end_block_limit
         in (end_block, start_block) # tasks_loop (end_block - 1) end_block_limit)
      else [])"
  by pat_completeness auto
termination
  by (relation "measure (\<lambda>(s, l). nat (s - l))") (auto simp: BLOCK_RANGE_def)

declare tasks_loop.simps [simp del]

text \<open>\<^verbatim>\<open>get_transfer_events\<close> logs the error and raises it again.\<close>

definition get_transfer_events :: "web3 \<Rightarrow> int \<Rightarrow> int \<Rightarrow> exn + raw_log list" where
  "get_transfer_events w start_block end_block =
     (case get_logs w start_block end_block of
        Inl e \<Rightarrow> Inl e
      | Inr logs \<Rightarrow> Inr logs)"

text \<open>
  What \<^verbatim>\<open>asyncio.gather(..., return_exceptions=True)\<close> puts into \<^verbatim>\<open>results\<close> for one
  task: the list \<^verbatim>\<open>get_transfer_events\<close> returned, the \<^verbatim>\<open>Exception\<close> it raised, or a
  \<^verbatim>\<open>CancelledError\<close> when the task ended cancelled. The last is neither a list nor an
  instance of \<^verbatim>\<open>Exception\<close>.
\<close>

datatype gather_result = Returned "raw_log list" | Raised exn | CancelledError

text \<open>
  The outcome of the task that fetches one block range. Which tasks end cancelled is an
  input beside the backend: \<open>cancelled end_block start_block\<close> holds when the task for
  that range does.
\<close>

definition task_result ::
  "(int \<Rightarrow> int \<Rightarrow> bool) \<Rightarrow> web3 \<Rightarrow> int \<Rightarrow> int \<Rightarrow> gather_result" where
  "task_result cancelled w end_block start_block =
     (if cancelled end_block start_block then CancelledError
      else (case get_transfer_events w end_block start_block of
              Inl e \<Rightarrow> Raised e
            | Inr logs \<Rightarrow> Returned logs))"

text \<open>
  The \<^verbatim>\<open>for result in results\<close> loop of lines 83-87. A result that is an instance of
  \<^verbatim>\<open>Exception\<close> is logged and skipped. Every other result goes to
  \<^verbatim>\<open>all_events.extend(result)\<close>: a list of logs extends \<^verbatim>\<open>all_events\<close>, a
  \<^verbatim>\<open>CancelledError\<close> is not iterable and makes \<^verbatim>\<open>extend\<close> raise \<open>TypeError\<close>, which
  nothing catches.
\<close>

fun collect_results :: "raw_log list \<Rightarrow> gather_result list \<Rightarrow> exn + raw_log list" where
  "collect_results all_events [] = Inr all_events"
| "collect_results all_events (result # results) =
     (case result of
        Raised e \<Rightarrow> collect_results all_events results
      | Returned logs \<Rightarrow> collect_results (all_events @ logs) results
      | CancelledError \<Rightarrow> Inl TypeError)"

definition get_all_transfer_events :: "(int \<Rightarrow> int \<Rightarrow> bool) \<Rightarrow> web3 \<Rightarrow> exn + raw_log list" where
  "get_all_transfer_events cancelled w =
     (case block_number w of
        Inl e \<Rightarrow> Inl e
      | Inr latest_block \<Rightarrow>
          (let end_block_limit = max (latest_block - 1000000) 0;
               tasks = tasks_loop latest_block end_block_limit;
               results = map (\<lambda>(end_block, start_block).
                              task_result cancelled w end_block start_block) tasks
           in collect_results [] results))"

section \<open>Aggregation: \<^verbatim>\<open>calculate_balances\<close>\<close>

definition ZERO_ADDRESS :: string where
  "ZERO_ADDRESS = ''0x0000000000000000000000000000000000000000''"

text \<open>
  \<^verbatim>\<open>'0x' + log['topics'][i].hex()[26:]\<close>; indexing past the end of the topics list
  raises \<open>IndexError\<close>.
\<close>

definition topic_address :: "raw_log \<Rightarrow> nat \<Rightarrow> exn + string" where
  "topic_address log i =
     (if i < length (topics log)
      then Inr (''0x'' @ drop 26 (hexbytes_hex (topics log ! i)))
      else Inl IndexError)"

text \<open>Lines 101-103: sender, receiver and amount of one event, read in that order.\<close>

definition decode_transfer :: "raw_log \<Rightarrow> exn + (string \<times> string \<times> int)" where
  "decode_transfer event =
     (case topic_address event 1 of
        Inl e \<Rightarrow> Inl e
      | Inr from_address \<Rightarrow>
          (case topic_address event 2 of
             Inl e \<Rightarrow> Inl e
           | Inr to_address \<Rightarrow>
               (case py_int16 (hexbytes_hex (data event)) of
                  Inl e \<Rightarrow> Inl e
                | Inr val \<Rightarrow> Inr (from_address, to_address, val))))"

text \<open>Lines 105-108: the two guarded updates of one event.\<close>

definition apply_transfer :: "string \<times> string \<times> int \<Rightarrow> ledger \<Rightarrow> ledger" where
  "apply_transfer t balances =
     (case t of (from_address, to_address, val) \<Rightarrow>
        (let b1 = (if from_address \<noteq> ZERO_ADDRESS
                   then dict_update from_address (\<lambda>x. x - val) balances else balances);
             b2 = (if to_address \<noteq> ZERO_ADDRESS
                   then dict_update to_address (\<lambda>x. x + val) b1 else b1)
         in b2))"

text \<open>The \<^verbatim>\<open>for event in events\<close> loop; nothing catches what the decoding raises.\<close>

fun balances_loop :: "ledger \<Rightarrow> raw_log list \<Rightarrow> exn + ledger" where
  "balances_loop balances [] = Inr balances"
| "balances_loop balances (event # events) =
     (case decode_transfer event of
        Inl e \<Rightarrow> Inl e
      | Inr t \<Rightarrow> balances_loop (apply_transfer t balances) events)"

definition calculate_balances :: "raw_log list \<Rightarrow> exn + ledger" where
  "calculate_balances events = balances_loop [] events"

section \<open>Ranking: \<^verbatim>\<open>get_top_balances\<close>\<close>

text \<open>\<^verbatim>\<open>xs[:n]\<close>: a negative \<open>n\<close> counts from the end.\<close>

definition slice_to :: "'a list \<Rightarrow> int \<Rightarrow> 'a list" where
  "slice_to xs n =
     (if 0 \<le> n then take (nat n) xs else take (length xs - nat (- n)) xs)"

text \<open>
  Line 122, \<^verbatim>\<open>sorted(balances.items(), key=lambda x: x[1], reverse=True)[:top_n]\<close>.
  Python's sort is stable, and with \<^verbatim>\<open>reverse=True\<close> it reverses the list, sorts it in
  ascending order and reverses the result, so that equal keys keep their order.
  \<^const>\<open>sort_key\<close> is a stable insertion sort.
\<close>

definition sorted_balances :: "ledger \<Rightarrow> int \<Rightarrow> ledger" where
  "sorted_balances balances top_n = slice_to (rev (sort_key snd (rev balances))) top_n"

definition get_top_balances :: "(int \<Rightarrow> int \<Rightarrow> bool) \<Rightarrow> web3 \<Rightarrow> int \<Rightarrow> exn + ledger" where
  "get_top_balances cancelled w top_n =
     (case get_all_transfer_events cancelled w of
        Inl e \<Rightarrow> Inl e
      | Inr events \<Rightarrow>
          (case calculate_balances events of
             Inl e \<Rightarrow> Inl e
           | Inr balances \<Rightarrow> Inr (sorted_balances balances top_n)))"

section \<open>Last activity: \<^verbatim>\<open>get_last_transaction_date\<close>\<close>

text \<open>\<^verbatim>\<open>last_transaction_block or 0\<close>: \<^verbatim>\<open>None\<close> and 0 both give 0.\<close>

definition or0 :: "int option \<Rightarrow> int" where
  "or0 b = (case b of None \<Rightarrow> 0 | Some n \<Rightarrow> n)"

text \<open>
  The \<^verbatim>\<open>for log in logs\<close> loop of lines 152-156. It runs inside the \<^verbatim>\<open>try\<close>, so it
  returns the exception it raised, if any, beside the value \<^verbatim>\<open>last_transaction_block\<close> has
  reached by then.
\<close>

fun scan_logs :: "string \<Rightarrow> int option \<Rightarrow> raw_log list \<Rightarrow> exn option \<times> int option" where
  "scan_logs address last_transaction_block [] = (None, last_transaction_block)"
| "scan_logs address last_transaction_block (log # logs) =
     (case topic_address log 1 of
        Inl e \<Rightarrow> (Some e, last_transaction_block)
      | Inr from_address \<Rightarrow>
          (case topic_address log 2 of
             Inl e \<Rightarrow> (Some e, last_transaction_block)
           | Inr to_address \<Rightarrow>
               (if address = from_address \<or> address = to_address
                then scan_logs address
                       (Some (max (or0 last_transaction_block) (blockNumber log))) logs
                else scan_logs address last_transaction_block logs)))"

text \<open>
  The \<^verbatim>\<open>while\<close> loop of lines 148-161, with the calls made so far. Any exception of the
  \<^verbatim>\<open>try\<close> body reaches the handler, which logs it and leaves the loop (\<^verbatim>\<open>break\<close>).
\<close>

function scan_loop ::
  "web3 \<Rightarrow> string \<Rightarrow> int \<Rightarrow> int \<Rightarrow> int option \<Rightarrow> call list \<Rightarrow> int option \<times> call list" where
  "scan_loop w address start_block end_block_limit last_transaction_block calls =
     (if start_block > end_block_limit then
        (let end_block = max (start_block - BLOCK_RANGE + 1) end_block_limit;
             calls' = calls @ [GetLogs end_block start_block]
         in case get_transfer_events w end_block start_block of
              Inl e \<Rightarrow> (last_transaction_block, calls')
            | Inr logs \<Rightarrow>
                (case scan_logs address last_transaction_block logs of
                   (Some e, b) \<Rightarrow> (b, calls')
                 | (None, b) \<Rightarrow> scan_loop w address (end_block - 1) end_block_limit b calls'))
      else (last_transaction_block, calls))"
  by pat_completeness auto
termination
  by (relation "measure (\<lambda>(w, a, s, l, b, c). nat (s - l))") (auto simp: BLOCK_RANGE_def)

declare scan_loop.simps [simp del]

text \<open>
  \<^verbatim>\<open>datetime.fromtimestamp(ts, timezone.utc)\<close> raises outside the years 1 to 9999; the
  call stands inside the second \<^verbatim>\<open>try\<close>.
\<close>

definition fromtimestamp_iso :: "int \<Rightarrow> exn + date_str" where
  "fromtimestamp_iso ts =
     (if - 62135596800 \<le> ts \<and> ts \<le> 253402300799 then Inr (Iso ts) else Inl ValueError)"

text \<open>Lines 163-171: the truth test of \<^verbatim>\<open>last_transaction_block\<close> and the lookup.\<close>

definition resolve_date :: "web3 \<Rightarrow> int option \<times> call list \<Rightarrow> date_str \<times> call list" where
  "resolve_date w r =
     (case r of (last_transaction_block, calls) \<Rightarrow>
        (case last_transaction_block of
           None \<Rightarrow> (NA, calls)
         | Some n \<Rightarrow>
             (if n \<noteq> 0 then
                (case get_block w n of
                   Inl e \<Rightarrow> (NA, calls @ [GetBlock n])
                 | Inr ts \<Rightarrow>
                     (case fromtimestamp_iso ts of
                        Inl e \<Rightarrow> (NA, calls @ [GetBlock n])
                      | Inr d \<Rightarrow> (d, calls @ [GetBlock n])))
              else (NA, calls))))"

definition get_last_transaction_date :: "web3 \<Rightarrow> string \<Rightarrow> exn + (date_str \<times> call list)" where
  "get_last_transaction_date w address =
     (case block_number w of
        Inl e \<Rightarrow> Inl e
      | Inr latest_block \<Rightarrow>
          (let end_block_limit = max (latest_block - 1000000) 0
           in Inr (resolve_date w
                     (scan_loop w address latest_block end_block_limit None []))))"

section \<open>Vocabulary of the statements\<close>

text \<open>Reading a \<^verbatim>\<open>defaultdict(int)\<close>: a missing key reads as 0.\<close>

definition lookup0 :: "ledger \<Rightarrow> string \<Rightarrow> int" where
  "lookup0 L k = (case map_of L k of None \<Rightarrow> 0 | Some v \<Rightarrow> v)"


definition touched :: "string \<times> string \<times> int \<Rightarrow> string set" where
  "touched t = (case t of (from_address, to_address, val) \<Rightarrow> {from_address, to_address} - {ZERO_ADDRESS})"

text \<open>
  The net amount the events mint: what leaves the zero address minus what enters it.
\<close>

definition net_minted :: "raw_log list \<Rightarrow> int" where
  "net_minted events =
     (\<Sum>event\<leftarrow>events.
        case decode_transfer event of
          Inl e \<Rightarrow> 0
        | Inr (from_address, to_address, val) \<Rightarrow>
            (if from_address = ZERO_ADDRESS then val else 0)
            - (if to_address = ZERO_ADDRESS then val else 0))"

text \<open>
  The \<^verbatim>\<open>try\<close> body of the scan runs through for a block range: the fetch returns and
  every log of the range has the two topics the loop reads.
\<close>

definition chunk_ok :: "web3 \<Rightarrow> string \<Rightarrow> int \<times> int \<Rightarrow> bool" where
  "chunk_ok w address r =
     (case get_transfer_events w (fst r) (snd r) of
        Inl e \<Rightarrow> False
      | Inr logs \<Rightarrow> fst (scan_logs address None logs) = None)"

text \<open>A log names the address as its sender or as its receiver.\<close>

definition touches :: "string \<Rightarrow> raw_log \<Rightarrow> bool" where
  "touches address log =
     (topic_address log 1 = Inr address \<or> topic_address log 2 = Inr address)"

text \<open>
  The logs a scan over the given block ranges looks at before it stops: all logs of every
  range up to the first one that fails; of that one, if its fetch returned, the logs in
  front of the first log with fewer than three topics; nothing of any later range.
\<close>

fun scanned_logs :: "web3 \<Rightarrow> (int \<times> int) list \<Rightarrow> raw_log list" where
  "scanned_logs w [] = []"
| "scanned_logs w (r # rs) =
     (case get_logs w (fst r) (snd r) of
        Inl e \<Rightarrow> []
      | Inr logs \<Rightarrow>
          (if list_all (\<lambda>log. 3 \<le> length (topics log)) logs
           then logs @ scanned_logs w rs
           else takeWhile (\<lambda>log. 3 \<le> length (topics log)) logs))"

text \<open>
  The block a list of logs gives for an address: nothing when no log touches the address,
  else the largest of 0 and the block numbers of the logs that touch it.
\<close>

definition last_touching_block :: "string \<Rightarrow> raw_log list \<Rightarrow> int option" where
  "last_touching_block address logs =
     (let bs = map blockNumber (filter (touches address) logs)
      in if bs = [] then None else Some (Max (set (0 # bs))))"

text \<open>
  \<^verbatim>\<open>last_transaction_block\<close> after the matching logs with the block numbers \<open>bs\<close> have
  been seen, in that order, starting from \<open>b\<close>.
\<close>

definition merge_blocks :: "int option \<Rightarrow> int list \<Rightarrow> int option" where
  "merge_blocks b bs = (if bs = [] then b else Some (fold max bs (or0 b)))"

section \<open>Example logs and backends\<close>

text \<open>
  A well-formed Transfer log: the signature hash of \<^verbatim>\<open>Transfer(address,address,uint256)\<close>,
  two 32-byte topic words each holding an address in its last byte, and a 32-byte amount.
\<close>

definition TRANSFER_EVENT_SIGNATURE :: bytes where
  "TRANSFER_EVENT_SIGNATURE =
     [0xdd, 0xf2, 0x52, 0xad, 0x1b, 0xe2, 0xc8, 0x9b, 0x69, 0xc2, 0xb0, 0x68, 0xfc, 0x37, 0x8d, 0xaa,
      0x95, 0x2b, 0xa7, 0xf1, 0x63, 0xc4, 0xa1, 0x16, 0x28, 0xf5, 0x5a, 0x4d, 0xf5, 0x23, 0xb3, 0xef]"

definition address_topic :: "8 word \<Rightarrow> bytes" where
  "address_topic b = replicate 31 0 @ [b]"

definition transfer_log :: "8 word \<Rightarrow> 8 word \<Rightarrow> 8 word \<Rightarrow> int \<Rightarrow> raw_log" where
  "transfer_log a b amount n =
     \<lparr>topics = [TRANSFER_EVENT_SIGNATURE, address_topic a, address_topic b],
      data = replicate 31 0 @ [amount], blockNumber = n\<rparr>"

text \<open>A log with two topics only, and a log whose data is empty.\<close>

definition short_topics_log :: raw_log where
  "short_topics_log =
     \<lparr>topics = [TRANSFER_EVENT_SIGNATURE, address_topic 0xaa],
      data = replicate 31 0 @ [7], blockNumber = 5\<rparr>"

definition empty_data_log :: raw_log where
  "empty_data_log =
     \<lparr>topics = [TRANSFER_EVENT_SIGNATURE, address_topic 0xaa, address_topic 0xbb],
      data = [], blockNumber = 5\<rparr>"

text \<open>
  A backend at block 100000 whose newest range \<open>[50001, 100000]\<close> fails; every other
  range returns one transfer from \<open>0xaa\<close> to \<open>0xbb\<close> in block 10.
\<close>

definition flaky_web3 :: web3 where
  "flaky_web3 =
     \<lparr>block_number = Inr 100000,
      get_logs = (\<lambda>lo hi. if lo = 50001 then Inl (BackendError ''timeout'')
                          else Inr [transfer_log 0xaa 0xbb 100 10]),
      get_block = (\<lambda>n. Inr 1700000000)\<rparr>"

text \<open>
  A backend at block 100000 on which every fetch succeeds, and a backend at block 150000
  whose newest range \<open>[100001, 150000]\<close> returns a transfer from \<open>0xaa\<close> in block 120000,
  whose next range \<open>[50001, 100000]\<close> fails, and whose oldest range returns a transfer from
  \<open>0xaa\<close> in block 7.
\<close>

definition steady_web3 :: web3 where
  "steady_web3 =
     \<lparr>block_number = Inr 100000,
      get_logs = (\<lambda>lo hi. Inr [transfer_log 0xaa 0xbb 100 10]),
      get_block = (\<lambda>n. Inr 1700000000)\<rparr>"

definition hit_then_fail_web3 :: web3 where
  "hit_then_fail_web3 =
     \<lparr>block_number = Inr 150000,
      get_logs = (\<lambda>lo hi. if lo = 100001 then Inr [transfer_log 0xaa 0xbb 100 120000]
                          else if lo = 50001 then Inl (BackendError ''timeout'')
                          else Inr [transfer_log 0xaa 0xbb 5 7]),
      get_block = (\<lambda>n. Inr 1700000000)\<rparr>"

text \<open>
  Three backends at block 5, so that a scan fetches the one range \<open>[0, 5]\<close>: one returns
  a transfer from \<open>0xaa\<close> in block 3 and fails every block lookup, one returns no logs, one
  returns a transfer from \<open>0xaa\<close> in block 0.
\<close>

definition no_block_web3 :: web3 where
  "no_block_web3 =
     \<lparr>block_number = Inr 5,
      get_logs = (\<lambda>lo hi. Inr [transfer_log 0xaa 0xbb 100 3]),
      get_block = (\<lambda>n. Inl (BackendError ''timeout''))\<rparr>"

definition empty_web3 :: web3 where
  "empty_web3 =
     \<lparr>block_number = Inr 5,
      get_logs = (\<lambda>lo hi. Inr []),
      get_block = (\<lambda>n. Inr 1700000000)\<rparr>"

definition block0_web3 :: web3 where
  "block0_web3 =
     \<lparr>block_number = Inr 5,
      get_logs = (\<lambda>lo hi. Inr [transfer_log 0xaa 0xbb 100 0]),
      get_block = (\<lambda>n. Inr 1700000000)\<rparr>"

section \<open>The block ranges of a scan\<close>

text \<open>One turn of the loop, and its exit.\<close>

lemma tasks_loop_unfold:
  "l < s \<Longrightarrow> tasks_loop s l =
     (max (s - BLOCK_RANGE + 1) l, s) # tasks_loop (max (s - BLOCK_RANGE + 1) l - 1) l"
  by (subst tasks_loop.simps) (simp add: Let_def)

lemma tasks_loop_done: "s \<le> l \<Longrightarrow> tasks_loop s l = []"
  by (subst tasks_loop.simps) simp

lemma tasks_loop_bounds:
  "(lo, hi) \<in> set (tasks_loop s l) \<Longrightarrow>
     l \<le> lo \<and> lo \<le> hi \<and> hi \<le> s \<and> hi - lo + 1 \<le> BLOCK_RANGE"
proof (induction s l rule: tasks_loop.induct)
  case (1 s l)
  show ?case
  proof (cases "l < s")
    case True
    define e where "e = max (s - BLOCK_RANGE + 1) l"
    have "(lo, hi) = (e, s) \<or> (lo, hi) \<in> set (tasks_loop (e - 1) l)"
      using "1.prems" True by (simp add: tasks_loop_unfold e_def)
    then show ?thesis
    proof
      assume "(lo, hi) = (e, s)"
      with True show ?thesis by (auto simp: e_def BLOCK_RANGE_def)
    next
      assume "(lo, hi) \<in> set (tasks_loop (e - 1) l)"
      then have "l \<le> lo \<and> lo \<le> hi \<and> hi \<le> e - 1 \<and> hi - lo + 1 \<le> BLOCK_RANGE"
        using "1.IH"[OF True refl] by (simp add: e_def)
      moreover have "e \<le> s" using True by (simp add: e_def BLOCK_RANGE_def)
      ultimately show ?thesis by simp
    qed
  next
    case False
    with "1.prems" show ?thesis by (simp add: tasks_loop_done)
  qed
qed

lemma tasks_loop_cover:
  "(\<Union>(lo, hi) \<in> set (tasks_loop s l). {lo..hi}) =
     (if s \<le> l then {} else if (s - l) mod BLOCK_RANGE = 0 then {l + 1..s} else {l..s})"
proof (induction s l rule: tasks_loop.induct)
  case (1 s l)
  show ?case
  proof (cases "l < s")
    case True
    define e where "e = max (s - BLOCK_RANGE + 1) l"
    have unfold: "tasks_loop s l = (e, s) # tasks_loop (e - 1) l"
      using True by (simp add: tasks_loop_unfold e_def)
    have IH: "(\<Union>(lo, hi) \<in> set (tasks_loop (e - 1) l). {lo..hi}) =
       (if e - 1 \<le> l then {} else if (e - 1 - l) mod BLOCK_RANGE = 0 then {l + 1..e - 1} else {l..e - 1})"
      using "1.IH"[OF True refl] by (simp add: e_def)
    show ?thesis
    proof (cases "s - l < BLOCK_RANGE")
      case small: True
      then have el: "e = l" by (simp add: e_def)
      have "(s - l) mod BLOCK_RANGE = s - l" using small True by simp
      then have "(s - l) mod BLOCK_RANGE \<noteq> 0" using True by simp
      then show ?thesis using True unfold IH el by simp
    next
      case big: False
      then have e: "e = s - BLOCK_RANGE + 1" by (simp add: e_def)
      have "e - 1 - l = (s - l) - BLOCK_RANGE" by (simp add: e)
      then have "(e - 1 - l) mod BLOCK_RANGE = ((s - l) - BLOCK_RANGE) mod BLOCK_RANGE"
        by (rule arg_cong)
      also have "\<dots> = (s - l) mod BLOCK_RANGE" by (rule minus_mod_self2)
      finally have m: "(e - 1 - l) mod BLOCK_RANGE = (s - l) mod BLOCK_RANGE" .
      have pos: "0 < BLOCK_RANGE" by (simp add: BLOCK_RANGE_def)
      show ?thesis
      proof (cases "e - 1 \<le> l")
        case True
        with big e have "s - l = BLOCK_RANGE" by simp
        then have "(s - l) mod BLOCK_RANGE = 0" by simp
        moreover have "{e..s} = {l + 1..s}" using \<open>s - l = BLOCK_RANGE\<close> e by (simp add: algebra_simps)
        ultimately show ?thesis using True unfold IH \<open>l < s\<close> by simp
      next
        case False
        have "e \<le> s" using pos e by simp
        have u1: "{e..s} \<union> {l + 1..e - 1} = {l + 1..s}" using False \<open>e \<le> s\<close> by auto
        have u2: "{e..s} \<union> {l..e - 1} = {l..s}" using False \<open>e \<le> s\<close> by auto
        show ?thesis using False unfold IH \<open>l < s\<close> m u1 u2 by simp
      qed
    qed
  next
    case False
    then show ?thesis by (simp add: tasks_loop_done)
  qed
qed

text \<open>Each range starts one block below the previous one: the ranges are contiguous and
  do not overlap, newest first.\<close>

lemma tasks_loop_hd:
  "l < s \<Longrightarrow> snd (hd (tasks_loop s l)) = s"
  by (simp add: tasks_loop_unfold)

lemma tasks_loop_contiguous:
  "successively (\<lambda>newer older. snd older = fst newer - 1) (tasks_loop s l)"
proof (induction s l rule: tasks_loop.induct)
  case (1 s l)
  show ?case
  proof (cases "l < s")
    case True
    define e where "e = max (s - BLOCK_RANGE + 1) l"
    have unfold: "tasks_loop s l = (e, s) # tasks_loop (e - 1) l"
      using True by (simp add: tasks_loop_unfold e_def)
    have IH: "successively (\<lambda>newer older. snd older = fst newer - 1) (tasks_loop (e - 1) l)"
      using "1.IH"[OF True refl] by (simp add: e_def)
    show ?thesis
    proof (cases "l < e - 1")
      case True
      then have "tasks_loop (e - 1) l \<noteq> []" by (simp add: tasks_loop_unfold)
      moreover have "snd (hd (tasks_loop (e - 1) l)) = e - 1"
        using True by (rule tasks_loop_hd)
      ultimately show ?thesis using unfold IH
        by (cases "tasks_loop (e - 1) l") auto
    next
      case False
      then show ?thesis using unfold by (simp add: tasks_loop_done)
    qed
  next
    case False
    then show ?thesis by (simp add: tasks_loop_done)
  qed
qed

text \<open>
  Claim C1. The ranges fetched for \<open>latestBlock = 1000000\<close> are twenty ranges of 50000
  blocks that cover the blocks 1 to 1000000. Block 0, the floor
  \<open>max (latestBlock - 1000000) 0\<close> of the window, is in none of them: the loop stops when
  \<open>start_block\<close> reaches the floor, so the floor is fetched only when the last range is cut
  short (see \<open>tasks_loop_cover\<close>).
\<close>

theorem tasks_loop_misses_floor:
  "tasks_loop 1000000 (max (1000000 - 1000000) 0) =
     [(950001, 1000000), (900001, 950000), (850001, 900000), (800001, 850000),
      (750001, 800000), (700001, 750000), (650001, 700000), (600001, 650000),
      (550001, 600000), (500001, 550000), (450001, 500000), (400001, 450000),
      (350001, 400000), (300001, 350000), (250001, 300000), (200001, 250000),
      (150001, 200000), (100001, 150000), (50001, 100000), (1, 50000)]"
  by code_simp

section \<open>The dictionary\<close>

lemma keys_dict_update: "fst ` set (dict_update k f L) = insert k (fst ` set L)"
proof (induction L)
  case Nil
  then show ?case by simp
next
  case (Cons kv L)
  obtain k' v where kv: "kv = (k', v)" by (cases kv)
  show ?case
  proof (cases "k = k'")
    case True
    then show ?thesis by (simp add: kv)
  next
    case False
    then show ?thesis using Cons.IH by (simp add: kv insert_commute)
  qed
qed

lemma distinct_dict_update:
  "distinct (map fst L) \<Longrightarrow> distinct (map fst (dict_update k f L))"
proof (induction L)
  case Nil
  then show ?case by simp
next
  case (Cons kv L)
  obtain k' v where kv: "kv = (k', v)" by (cases kv)
  have "fst ` set (dict_update k f L) = insert k (fst ` set L)" by (rule keys_dict_update)
  with Cons kv show ?case by auto
qed



lemma sum_dict_update:
  "sum_list (map snd (dict_update k f L)) = sum_list (map snd L) + (f (lookup0 L k) - lookup0 L k)"
  by (induction L) (auto simp: lookup0_def)

lemma keys_apply_transfer:
  "fst ` set (apply_transfer t L) = fst ` set L \<union> touched t"
  by (cases t) (auto simp: apply_transfer_def touched_def Let_def keys_dict_update)


lemma distinct_apply_transfer:
  "distinct (map fst L) \<Longrightarrow> distinct (map fst (apply_transfer t L))"
  by (cases t) (auto simp: apply_transfer_def Let_def distinct_dict_update)

lemma sum_apply_transfer:
  "sum_list (map snd (apply_transfer t L)) = sum_list (map snd L) +
     (case t of (from_address, to_address, val) \<Rightarrow>
        (if from_address = ZERO_ADDRESS then val else 0) - (if to_address = ZERO_ADDRESS then val else 0))"
  by (cases t) (auto simp: apply_transfer_def Let_def sum_dict_update)

lemma balances_loop_fold:
  "balances_loop L evs = Inr L' \<Longrightarrow>
     (\<forall>ev \<in> set evs. \<not> isl (decode_transfer ev)) \<and>
     L' = fold apply_transfer (map (projr \<circ> decode_transfer) evs) L"
  by (induction evs arbitrary: L) (auto split: sum.splits)


lemma balances_loop_fails:
  "ev \<in> set evs \<Longrightarrow> isl (decode_transfer ev) \<Longrightarrow> isl (balances_loop L evs)"
  by (induction evs arbitrary: L) (auto split: sum.splits)

lemma keys_fold:
  "fst ` set (fold apply_transfer ts L) = fst ` set L \<union> (\<Union>t \<in> set ts. touched t)"
  by (induction ts arbitrary: L) (auto simp: keys_apply_transfer)


lemma distinct_fold:
  "distinct (map fst L) \<Longrightarrow> distinct (map fst (fold apply_transfer ts L))"
  by (induction ts arbitrary: L) (auto simp: distinct_apply_transfer)



section \<open>Decoding\<close>

lemma hex_value_digit_all: "\<forall>n \<in> set [0..<16]. hex_value (hex_digit n) = Some (int n)"
  by code_simp

lemma hex_value_digit: "n < 16 \<Longrightarrow> hex_value (hex_digit n) = Some (int n)"
  using hex_value_digit_all by simp

lemma digits16_hex_byte:
  "digits16 acc (hex_byte w @ cs) = digits16 (256 * acc + uint w) cs"
proof -
  have a: "unat w div 16 < 16"
    using unsigned_less[of w, where ?'a = nat] by (simp add: div_less_iff_less_mult)
  have b: "unat w mod 16 < 16" by simp
  have step: "digits16 acc (hex_byte w @ cs) =
      digits16 (16 * (16 * acc + int (unat w div 16)) + int (unat w mod 16)) cs"
    by (simp only: hex_byte_def append_Cons append_Nil digits16.simps
        hex_value_digit[OF a] hex_value_digit[OF b] option.case)
  have "int (unat w div 16) = uint w div 16" "int (unat w mod 16) = uint w mod 16"
    by (simp_all add: zdiv_int zmod_int)
  then have eq: "16 * (16 * acc + int (unat w div 16)) + int (unat w mod 16) = 256 * acc + uint w"
    by presburger
  show ?thesis by (simp only: step eq)
qed

lemma digits16_hex_bytes:
  "\<not> isl (digits16 acc (concat (map hex_byte bs)))"
  by (induction bs arbitrary: acc) (simp_all add: digits16_hex_byte)

lemma py_int16_hexbytes: "isl (py_int16 (hexbytes_hex bs)) \<longleftrightarrow> bs = []"
proof (cases bs)
  case Nil
  then show ?thesis by (simp add: py_int16_def hexbytes_hex_def)
next
  case (Cons b bs')
  have "concat (map hex_byte bs) \<noteq> []" by (simp add: Cons hex_byte_def)
  then show ?thesis
    using digits16_hex_bytes[of 0 bs] by (simp add: py_int16_def hexbytes_hex_def Cons)
qed

lemma py_int16_error: "py_int16 s = Inl e \<Longrightarrow> e = ValueError"
proof -
  have "digits16 acc cs = Inl e \<Longrightarrow> e = ValueError" for acc cs
    by (induction cs arbitrary: acc) (auto split: option.splits)
  then show "py_int16 s = Inl e \<Longrightarrow> e = ValueError"
    by (auto simp: py_int16_def Let_def split: if_splits)
qed

lemma decode_transfer_error:
  "decode_transfer ev = Inl e \<Longrightarrow> e = IndexError \<or> e = ValueError"
  by (auto simp: decode_transfer_def topic_address_def split: sum.splits if_splits dest: py_int16_error)

lemma decode_transfer_fails:
  "isl (decode_transfer ev) \<longleftrightarrow> length (topics ev) < 3 \<or> data ev = []"
proof -
  have "isl (py_int16 (hexbytes_hex (data ev))) \<longleftrightarrow> data ev = []" by (rule py_int16_hexbytes)
  then show ?thesis
    by (auto simp: decode_transfer_def topic_address_def split: sum.splits if_splits)
qed

lemma balances_loop_error:
  "balances_loop L evs = Inl e \<Longrightarrow> e = IndexError \<or> e = ValueError"
  by (induction evs arbitrary: L) (auto split: sum.splits dest: decode_transfer_error)

section \<open>The aggregation loop\<close>

lemma sum_fold:
  "sum_list (map snd (fold apply_transfer ts L)) = sum_list (map snd L) +
     (\<Sum>t\<leftarrow>ts. case t of (from_address, to_address, val) \<Rightarrow>
        (if from_address = ZERO_ADDRESS then val else 0) - (if to_address = ZERO_ADDRESS then val else 0))"
  by (induction ts arbitrary: L) (simp_all add: sum_apply_transfer)

lemma net_minted_decoded:
  "\<forall>ev \<in> set evs. \<not> isl (decode_transfer ev) \<Longrightarrow>
     net_minted evs =
       (\<Sum>t\<leftarrow>map (projr \<circ> decode_transfer) evs. case t of (from_address, to_address, val) \<Rightarrow>
        (if from_address = ZERO_ADDRESS then val else 0) - (if to_address = ZERO_ADDRESS then val else 0))"
  unfolding net_minted_def
  by (induction evs) (auto split: sum.splits)



text \<open>
  Claim C7. The zero address is never a key of the ledger \<^verbatim>\<open>calculate_balances\<close>
  returns: both updates are guarded by the comparison with the zero address.
\<close>

theorem zero_address_never_key:
  "calculate_balances E = Inr L \<Longrightarrow> ZERO_ADDRESS \<notin> fst ` set L"
proof -
  assume "calculate_balances E = Inr L"
  then have "L = fold apply_transfer (map (projr \<circ> decode_transfer) E) []"
    unfolding calculate_balances_def by (simp add: balances_loop_fold)
  moreover have "ZERO_ADDRESS \<notin> touched t" for t
    by (cases t) (simp add: touched_def)
  ultimately show ?thesis by (simp add: keys_fold)
qed

theorem zero_address_never_key_witness:
  "calculate_balances [transfer_log 0x00 0xaa 100 1, transfer_log 0xaa 0x00 30 2] =
     Inr [(''0x00000000000000000000000000000000000000aa'', 70)] \<and>
   ZERO_ADDRESS \<notin> fst ` set [(''0x00000000000000000000000000000000000000aa'', 70::int)]"
proof -
  have c: "calculate_balances [transfer_log 0x00 0xaa 100 1, transfer_log 0xaa 0x00 30 2] =
     Inr [(''0x00000000000000000000000000000000000000aa'', 70)]"
    by code_simp
  from zero_address_never_key[OF c] c show ?thesis by blast
qed

text \<open>
  Claim C9, as stated, fails. The history of a token whose only event is the mint of 100
  units to \<open>0xaa\<close> is complete, and the ledger holds 100 for \<open>0xaa\<close>: the sender of a
  mint is the zero address, which is never debited.
\<close>

theorem conservation_counterexample:
  "calculate_balances [transfer_log 0x00 0xaa 100 1] =
     Inr [(''0x00000000000000000000000000000000000000aa'', 100)] \<and>
   sum_list (map snd [(''0x00000000000000000000000000000000000000aa'', 100::int)]) \<noteq> 0"
proof -
  have "calculate_balances [transfer_log 0x00 0xaa 100 1] =
     Inr [(''0x00000000000000000000000000000000000000aa'', 100)]"
    by code_simp
  then show ?thesis by simp
qed

text \<open>
  Claim C9, amended. The balances of the ledger \<^verbatim>\<open>calculate_balances\<close> returns add up
  to the net amount minted by the events: the total sent from the zero address minus the
  total sent to it.
\<close>

theorem balances_sum_net_minted:
  "calculate_balances E = Inr L \<Longrightarrow> sum_list (map snd L) = net_minted E"
proof -
  assume a: "calculate_balances E = Inr L"
  then have ok: "\<forall>ev \<in> set E. \<not> isl (decode_transfer ev)"
    and L: "L = fold apply_transfer (map (projr \<circ> decode_transfer) E) []"
    unfolding calculate_balances_def by (simp_all add: balances_loop_fold)
  show ?thesis by (simp add: L sum_fold net_minted_decoded[OF ok])
qed

theorem balances_sum_net_minted_witness:
  "calculate_balances [transfer_log 0x00 0xaa 100 1, transfer_log 0xaa 0xbb 30 2,
                       transfer_log 0xbb 0x00 10 3] =
     Inr [(''0x00000000000000000000000000000000000000aa'', 70),
          (''0x00000000000000000000000000000000000000bb'', 20)] \<and>
   net_minted [transfer_log 0x00 0xaa 100 1, transfer_log 0xaa 0xbb 30 2,
               transfer_log 0xbb 0x00 10 3] = 90 \<and>
   sum_list (map snd [(''0x00000000000000000000000000000000000000aa'', 70::int),
                      (''0x00000000000000000000000000000000000000bb'', 20)]) = 90"
proof -
  have c: "calculate_balances [transfer_log 0x00 0xaa 100 1, transfer_log 0xaa 0xbb 30 2,
                       transfer_log 0xbb 0x00 10 3] =
     Inr [(''0x00000000000000000000000000000000000000aa'', 70),
          (''0x00000000000000000000000000000000000000bb'', 20)]"
    by code_simp
  have n: "net_minted [transfer_log 0x00 0xaa 100 1, transfer_log 0xaa 0xbb 30 2,
               transfer_log 0xbb 0x00 10 3] = 90"
    by code_simp
  from balances_sum_net_minted[OF c] c n show ?thesis by simp
qed

text \<open>
  Claim C6, as stated, fails. A log with two topics, or with empty data, in front of a
  well-formed log makes \<^verbatim>\<open>calculate_balances\<close> raise; the well-formed log alone gives a
  ledger. No event is skipped.
\<close>

theorem malformed_log_counterexample:
  "calculate_balances [short_topics_log, transfer_log 0xaa 0xbb 100 10] = Inl IndexError \<and>
   calculate_balances [empty_data_log, transfer_log 0xaa 0xbb 100 10] = Inl ValueError \<and>
   calculate_balances [transfer_log 0xaa 0xbb 100 10] =
     Inr [(''0x00000000000000000000000000000000000000aa'', - 100),
          (''0x00000000000000000000000000000000000000bb'', 100)]"
  by code_simp

text \<open>
  Claim C6, amended. When some event has fewer than three topics, or data that
  \<^verbatim>\<open>int(..., 16)\<close> cannot parse, \<^verbatim>\<open>calculate_balances\<close> raises \<open>IndexError\<close> or
  \<open>ValueError\<close> and returns no ledger.
\<close>

theorem malformed_log_aborts:
  "ev \<in> set E \<Longrightarrow> length (topics ev) < 3 \<or> isl (py_int16 (hexbytes_hex (data ev))) \<Longrightarrow>
     calculate_balances E = Inl IndexError \<or> calculate_balances E = Inl ValueError"
proof -
  assume ev: "ev \<in> set E"
    and bad: "length (topics ev) < 3 \<or> isl (py_int16 (hexbytes_hex (data ev)))"
  from bad have "isl (decode_transfer ev)"
    by (simp add: decode_transfer_fails py_int16_hexbytes)
  with ev have "isl (calculate_balances E)"
    unfolding calculate_balances_def by (rule balances_loop_fails)
  then obtain e where e: "calculate_balances E = Inl e" by (auto simp: isl_def)
  then have "e = IndexError \<or> e = ValueError"
    unfolding calculate_balances_def by (rule balances_loop_error)
  with e show ?thesis by auto
qed

theorem malformed_log_aborts_witness:
  "short_topics_log \<in> set [transfer_log 0xaa 0xbb 100 10, short_topics_log] \<and>
   length (topics short_topics_log) < 3 \<and>
   calculate_balances [transfer_log 0xaa 0xbb 100 10, short_topics_log] = Inl IndexError"
proof -
  have a: "short_topics_log \<in> set [transfer_log 0xaa 0xbb 100 10, short_topics_log]" by simp
  have b: "length (topics short_topics_log) < 3" by (simp add: short_topics_log_def)
  have c: "calculate_balances [transfer_log 0xaa 0xbb 100 10, short_topics_log] \<noteq> Inl ValueError"
    by code_simp
  from malformed_log_aborts[OF a disjI1[OF b]] a b c show ?thesis by blast
qed

section \<open>The join point of \<^verbatim>\<open>get_all_transfer_events\<close>\<close>

text \<open>A cancelled task among the results makes the loop raise; without one the loop
  returns the logs of the tasks that returned, in task order.\<close>

lemma collect_results_cancelled:
  "CancelledError \<in> set results \<Longrightarrow> collect_results all_events results = Inl TypeError"
  by (induction results arbitrary: all_events) (auto split: gather_result.splits)

lemma collect_results_absorbs:
  "CancelledError \<notin> set results \<Longrightarrow>
     collect_results all_events results =
       Inr (all_events @
            concat (map (\<lambda>r. case r of Returned logs \<Rightarrow> logs | _ \<Rightarrow> []) results))"
  by (induction results arbitrary: all_events) (auto split: gather_result.splits)

lemma get_all_transfer_events_cancelled:
  assumes "block_number w = Inr latest"
    and "(lo, hi) \<in> set (tasks_loop latest (max (latest - 1000000) 0))"
    and "cancelled lo hi"
  shows "get_all_transfer_events cancelled w = Inl TypeError"
proof -
  have "task_result cancelled w lo hi = CancelledError"
    using assms(3) by (simp add: task_result_def)
  then have "CancelledError \<in> set (map (\<lambda>(end_block, start_block).
               task_result cancelled w end_block start_block)
               (tasks_loop latest (max (latest - 1000000) 0)))"
    using assms(2) by (force simp: image_iff)
  then show ?thesis
    by (simp add: get_all_transfer_events_def assms(1) Let_def collect_results_cancelled)
qed

text \<open>
  Claim C8, as stated, fails. On a backend where every fetch succeeds, with the task of
  the range \<open>[1, 50000]\<close> ending cancelled, \<^verbatim>\<open>get_all_transfer_events\<close> raises
  \<open>TypeError\<close> past the join point: the \<^verbatim>\<open>CancelledError\<close> that \<^verbatim>\<open>gather\<close> hands back is
  no instance of \<^verbatim>\<open>Exception\<close>, line 84 does not skip it, and \<^verbatim>\<open>all_events.extend\<close>
  raises. The logs of the range that was fetched are not returned.
\<close>

theorem cancelled_task_raises_TypeError:
  "block_number steady_web3 = Inr 100000 \<and>
   tasks_loop 100000 (max (100000 - 1000000) 0) = [(50001, 100000), (1, 50000)] \<and>
   get_logs steady_web3 50001 100000 = Inr [transfer_log 0xaa 0xbb 100 10] \<and>
   get_logs steady_web3 1 50000 = Inr [transfer_log 0xaa 0xbb 100 10] \<and>
   get_all_transfer_events (\<lambda>end_block start_block. end_block = 1) steady_web3 = Inl TypeError"
  by code_simp

text \<open>
  Claim C8, amended. Once the latest block number is known and while no task ends
  cancelled, \<^verbatim>\<open>get_all_transfer_events\<close> returns (nothing propagates past the join
  point), and what it returns is the concatenation, in task order, of the logs of the
  ranges whose fetch succeeded; every fetch that raised an \<^verbatim>\<open>Exception\<close> is skipped.
\<close>

theorem get_all_transfer_events_absorbs:
  assumes "block_number w = Inr latest"
    and "\<forall>(lo, hi) \<in> set (tasks_loop latest (max (latest - 1000000) 0)). \<not> cancelled lo hi"
  shows "get_all_transfer_events cancelled w =
       Inr (concat (map projr (filter (\<lambda>r. \<not> isl r)
              (map (\<lambda>(lo, hi). get_logs w lo hi)
                 (tasks_loop latest (max (latest - 1000000) 0))))))"
proof -
  let ?rs = "tasks_loop latest (max (latest - 1000000) 0)"
  let ?results = "map (\<lambda>(end_block, start_block).
                         task_result cancelled w end_block start_block) ?rs"
  have nc: "CancelledError \<notin> set ?results"
    using assms(2)
    by (auto simp: task_result_def get_transfer_events_def split: if_splits sum.splits)
  have "concat (map (\<lambda>r. case r of Returned logs \<Rightarrow> logs | _ \<Rightarrow> [])
                  (map (\<lambda>(end_block, start_block).
                          task_result cancelled w end_block start_block) rs)) =
        concat (map projr (filter (\<lambda>r. \<not> isl r) (map (\<lambda>(lo, hi). get_logs w lo hi) rs)))"
    if "\<forall>(lo, hi) \<in> set rs. \<not> cancelled lo hi" for rs
    using that
    by (induction rs)
       (auto simp: task_result_def get_transfer_events_def split: sum.splits)
  from this[OF assms(2)] show ?thesis
    by (simp add: get_all_transfer_events_def assms(1) Let_def collect_results_absorbs[OF nc])
qed

theorem get_all_transfer_events_absorbs_witness:
  "block_number flaky_web3 = Inr 100000 \<and>
   tasks_loop 100000 (max (100000 - 1000000) 0) = [(50001, 100000), (1, 50000)] \<and>
   get_logs flaky_web3 50001 100000 = Inl (BackendError ''timeout'') \<and>
   get_logs flaky_web3 1 50000 = Inr [transfer_log 0xaa 0xbb 100 10] \<and>
   get_all_transfer_events (\<lambda>end_block start_block. False) flaky_web3 =
     Inr [transfer_log 0xaa 0xbb 100 10]"
proof -
  have b: "block_number flaky_web3 = Inr 100000" by (simp add: flaky_web3_def)
  have t: "tasks_loop 100000 (max (100000 - 1000000) 0) = [(50001, 100000), (1, 50000)]"
    by code_simp
  have g: "get_logs flaky_web3 50001 100000 = Inl (BackendError ''timeout'')"
    by (simp add: flaky_web3_def)
  have g2: "get_logs flaky_web3 1 50000 = Inr [transfer_log 0xaa 0xbb 100 10]"
    by (simp add: flaky_web3_def)
  have c: "\<forall>(lo, hi) \<in> set (tasks_loop 100000 (max (100000 - 1000000) 0)).
             \<not> (\<lambda>end_block start_block. False) lo hi"
    by simp
  from get_all_transfer_events_absorbs[OF b c]
  have "get_all_transfer_events (\<lambda>end_block start_block. False) flaky_web3 =
     Inr [transfer_log 0xaa 0xbb 100 10]"
    by (simp only: t list.map prod.case g g2 filter.simps sum.disc simp_thms if_True if_False
        concat.simps sum.sel append_Nil2)
  with b t g g2 show ?thesis by (intro conjI)
qed

section \<open>The ranking\<close>

lemma sorted_desc_sort:
  "sorted_wrt (\<lambda>a b. snd b \<le> snd a) (rev (sort_key snd (rev L)))"
proof -
  have "sorted (map snd (sort_key snd (rev L)))" by (rule sorted_sort_key)
  then have "sorted_wrt (\<lambda>a b. snd a \<le> snd b) (sort_key snd (rev L))"
    by (simp add: sorted_map)
  then show ?thesis by (simp add: sorted_wrt_rev)
qed

lemma stable_desc_sort:
  "filter (\<lambda>x. snd x = v) (rev (sort_key snd (rev L))) = filter (\<lambda>x. snd x = v) L"
proof -
  have "filter (\<lambda>x. snd x = v) (rev (sort_key snd (rev L))) =
        rev (filter (\<lambda>x. snd x = v) (sort_key snd (rev L)))"
    by (simp add: rev_filter)
  also have "\<dots> = rev (filter (\<lambda>x. snd x = v) (rev L))"
    by (simp only: sort_key_stable)
  also have "\<dots> = filter (\<lambda>x. snd x = v) L"
    by (simp add: rev_filter)
  finally show ?thesis .
qed

text \<open>
  Claim C3. For \<open>n \<ge> 0\<close> the ranking is sorted by balance in descending order, has
  length \<open>min n |L|\<close>, holds entries of the ledger only, and for every balance \<open>v\<close> its
  entries with balance \<open>v\<close> are the first such entries of the ledger, in ledger order.
\<close>

theorem sorted_balances_ranking:
  assumes "0 \<le> n"
  shows "sorted_wrt (\<lambda>a b. snd b \<le> snd a) (sorted_balances L n) \<and>
         length (sorted_balances L n) = min (nat n) (length L) \<and>
         (\<forall>v. prefix (filter (\<lambda>x. snd x = v) (sorted_balances L n))
                     (filter (\<lambda>x. snd x = v) L)) \<and>
         mset (sorted_balances L n) \<subseteq># mset L"
proof -
  let ?S = "rev (sort_key snd (rev L))"
  have R: "sorted_balances L n = take (nat n) ?S"
    using assms by (simp add: sorted_balances_def slice_to_def)
  have 1: "sorted_wrt (\<lambda>a b. snd b \<le> snd a) (take (nat n) ?S)"
    using sorted_desc_sort[of L] by (rule sorted_wrt_take)
  have 2: "length (take (nat n) ?S) = min (nat n) (length L)" by simp
  have 3: "prefix (filter (\<lambda>x. snd x = v) (take (nat n) ?S)) (filter (\<lambda>x. snd x = v) L)" for v
  proof -
    have "prefix (take (nat n) ?S) ?S" by (rule take_is_prefix)
    then have "prefix (filter (\<lambda>x. snd x = v) (take (nat n) ?S)) (filter (\<lambda>x. snd x = v) ?S)"
      by (rule filter_mono_prefix)
    then show ?thesis by (simp only: stable_desc_sort)
  qed
  have "mset ?S = mset L" by simp
  moreover have "mset (take (nat n) ?S) \<subseteq># mset ?S"
    by (metis append_take_drop_id mset_append mset_subset_eq_add_left)
  ultimately have 4: "mset (take (nat n) ?S) \<subseteq># mset L" by simp
  from 1 2 3 4 show ?thesis unfolding R by blast
qed

theorem sorted_balances_ranking_witness:
  "(0::int) \<le> 3 \<and>
   sorted_balances [(''a'', 5), (''b'', 7), (''c'', 5), (''d'', 7)] 3 =
     [(''b'', 7), (''d'', 7), (''a'', 5)] \<and>
   sorted_balances [(''a'', 5), (''b'', 7), (''c'', 5), (''d'', 7)] 0 = [] \<and>
   length (sorted_balances [(''a'', 5), (''b'', 7), (''c'', 5), (''d'', 7)] 3) =
     min (nat 3) (length [(''a'', 5::int), (''b'', 7), (''c'', 5), (''d'', 7)])"
proof -
  have h: "(0::int) \<le> 3" by simp
  have e: "sorted_balances [(''a'', 5), (''b'', 7), (''c'', 5), (''d'', 7)] 3 =
     [(''b'', 7), (''d'', 7), (''a'', 5)]"
    by code_simp
  have z: "sorted_balances [(''a'', 5), (''b'', 7), (''c'', 5), (''d'', 7)] 0 = []"
    by code_simp
  from sorted_balances_ranking[OF h, of "[(''a'', 5), (''b'', 7), (''c'', 5), (''d'', 7)]"]
  have "length (sorted_balances [(''a'', 5), (''b'', 7), (''c'', 5), (''d'', 7)] 3) =
     min (nat 3) (length [(''a'', 5::int), (''b'', 7), (''c'', 5), (''d'', 7)])"
    by blast
  with h e z show ?thesis by blast
qed

section \<open>The scan of \<^verbatim>\<open>get_last_transaction_date\<close>\<close>

text \<open>Whether the loop over the logs of a range raises does not depend on the block found
  so far; it raises exactly when some log has fewer than three topics.\<close>

lemma scan_logs_exn_indep:
  "fst (scan_logs A b logs) = fst (scan_logs A b' logs)"
  by (induction logs arbitrary: b b') (auto split: sum.splits)

lemma scan_logs_exn:
  "fst (scan_logs A b logs) = None \<longleftrightarrow> (\<forall>log \<in> set logs. 3 \<le> length (topics log))"
  by (induction logs arbitrary: b) (auto simp: topic_address_def split: sum.splits if_splits)

lemma scan_loop_done:
  "s \<le> l \<Longrightarrow> scan_loop w A s l b calls = (b, calls)"
  by (subst scan_loop.simps) simp

lemma scan_loop_break:
  assumes "l < s" and "\<not> chunk_ok w A (max (s - BLOCK_RANGE + 1) l, s)"
  shows "\<exists>b'. scan_loop w A s l b calls =
           (b', calls @ [GetLogs (max (s - BLOCK_RANGE + 1) l) s])"
proof (cases "get_transfer_events w (max (s - BLOCK_RANGE + 1) l) s")
  case (Inl e)
  then show ?thesis using assms(1) by (subst scan_loop.simps) (simp add: Let_def)
next
  case (Inr logs)
  with assms(2) have "fst (scan_logs A None logs) \<noteq> None" by (simp add: chunk_ok_def)
  then have "fst (scan_logs A b logs) \<noteq> None"
    using scan_logs_exn_indep[of A b logs None] by simp
  then obtain e b' where "scan_logs A b logs = (Some e, b')"
    by (cases "scan_logs A b logs") auto
  then show ?thesis using Inr assms(1) by (subst scan_loop.simps) (simp add: Let_def)
qed

lemma scan_loop_next:
  assumes "l < s" and "chunk_ok w A (max (s - BLOCK_RANGE + 1) l, s)"
  shows "\<exists>logs. get_transfer_events w (max (s - BLOCK_RANGE + 1) l) s = Inr logs \<and>
       scan_loop w A s l b calls =
         scan_loop w A (max (s - BLOCK_RANGE + 1) l - 1) l (snd (scan_logs A b logs))
           (calls @ [GetLogs (max (s - BLOCK_RANGE + 1) l) s])"
proof (cases "get_transfer_events w (max (s - BLOCK_RANGE + 1) l) s")
  case (Inl e)
  with assms(2) show ?thesis by (simp add: chunk_ok_def)
next
  case (Inr logs)
  with assms(2) have "fst (scan_logs A None logs) = None" by (simp add: chunk_ok_def)
  then have "fst (scan_logs A b logs) = None"
    using scan_logs_exn_indep[of A b logs None] by simp
  then obtain b' where "scan_logs A b logs = (None, b')"
    by (cases "scan_logs A b logs") auto
  then show ?thesis using Inr assms(1) by (subst scan_loop.simps) (simp add: Let_def)
qed

text \<open>The calls of a scan: the ranges in order, up to and including the first one whose
  \<^verbatim>\<open>try\<close> body raises.\<close>

lemma scan_loop_calls:
  "snd (scan_loop w A s l b calls) =
     calls @ map (\<lambda>(lo, hi). GetLogs lo hi)
       (takeWhile (chunk_ok w A) (tasks_loop s l) @
        take 1 (dropWhile (chunk_ok w A) (tasks_loop s l)))"
proof (induction s l arbitrary: b calls rule: tasks_loop.induct)
  case (1 s l)
  show ?case
  proof (cases "l < s")
    case False
    then show ?thesis by (simp add: scan_loop_done tasks_loop_done)
  next
    case True
    define e where "e = max (s - BLOCK_RANGE + 1) l"
    have unfold: "tasks_loop s l = (e, s) # tasks_loop (e - 1) l"
      using True by (simp add: tasks_loop_unfold e_def)
    show ?thesis
    proof (cases "chunk_ok w A (e, s)")
      case False
      then obtain b' where "scan_loop w A s l b calls = (b', calls @ [GetLogs e s])"
        using scan_loop_break[OF True, of w A b calls] by (auto simp: e_def)
      then show ?thesis using False by (simp add: unfold)
    next
      case ok: True
      then obtain logs where
        "scan_loop w A s l b calls =
           scan_loop w A (e - 1) l (snd (scan_logs A b logs)) (calls @ [GetLogs e s])"
        using scan_loop_next[OF True, of w A b calls] by (auto simp: e_def)
      then show ?thesis
        using ok "1.IH"[OF True refl, of "snd (scan_logs A b logs)" "calls @ [GetLogs e s]"]
        by (simp add: unfold e_def)
    qed
  qed
qed

lemma scan_loop_step:
  "l < s \<Longrightarrow> scan_loop w A s l b calls =
     (case get_transfer_events w (max (s - BLOCK_RANGE + 1) l) s of
        Inl x \<Rightarrow> (b, calls @ [GetLogs (max (s - BLOCK_RANGE + 1) l) s])
      | Inr logs \<Rightarrow>
          (case scan_logs A b logs of
             (Some x, b') \<Rightarrow> (b', calls @ [GetLogs (max (s - BLOCK_RANGE + 1) l) s])
           | (None, b') \<Rightarrow>
               scan_loop w A (max (s - BLOCK_RANGE + 1) l - 1) l b'
                 (calls @ [GetLogs (max (s - BLOCK_RANGE + 1) l) s])))"
  by (subst scan_loop.simps) (simp add: Let_def)

text \<open>A property of \<^verbatim>\<open>last_transaction_block\<close> that every matching log keeps holds of
  the scan's result.\<close>

lemma scan_logs_invariant:
  assumes "P b"
    and "\<And>b log. P b \<Longrightarrow> log \<in> set logs \<Longrightarrow> touches A log \<Longrightarrow>
           P (Some (max (or0 b) (blockNumber log)))"
  shows "P (snd (scan_logs A b logs))"
  using assms
proof (induction logs arbitrary: b)
  case Nil
  then show ?case by simp
next
  case (Cons log logs)
  show ?case
  proof (cases "topic_address log 1")
    case (Inl e)
    then show ?thesis using Cons.prems(1) by simp
  next
    case from_ok: (Inr from_address)
    show ?thesis
    proof (cases "topic_address log 2")
      case (Inl e)
      then show ?thesis using from_ok Cons.prems(1) by simp
    next
      case to_ok: (Inr to_address)
      show ?thesis
      proof (cases "A = from_address \<or> A = to_address")
        case True
        then have "touches A log" using from_ok to_ok by (auto simp: touches_def)
        then have "P (Some (max (or0 b) (blockNumber log)))"
          using Cons.prems by simp
        then have "P (snd (scan_logs A (Some (max (or0 b) (blockNumber log))) logs))"
          using Cons.prems(2) by (intro Cons.IH) auto
        then show ?thesis using from_ok to_ok True by simp
      next
        case False
        have "P (snd (scan_logs A b logs))"
          using Cons.prems by (intro Cons.IH) auto
        then show ?thesis using from_ok to_ok False by simp
      qed
    qed
  qed
qed

lemma scan_loop_invariant:
  assumes "P b"
    and step: "\<And>b lo hi logs log. P b \<Longrightarrow> get_logs w lo hi = Inr logs \<Longrightarrow> log \<in> set logs \<Longrightarrow>
           touches A log \<Longrightarrow> P (Some (max (or0 b) (blockNumber log)))"
  shows "P (fst (scan_loop w A s l b calls))"
  using assms(1)
proof (induction s l arbitrary: b calls rule: tasks_loop.induct)
  case (1 s l)
  show ?case
  proof (cases "l < s")
    case False
    then show ?thesis using "1.prems" by (simp add: scan_loop_done)
  next
    case True
    define e where "e = max (s - BLOCK_RANGE + 1) l"
    show ?thesis
    proof (cases "get_transfer_events w e s")
      case (Inl x)
      then show ?thesis using "1.prems" True by (simp add: scan_loop_step e_def)
    next
      case (Inr logs)
      then have g: "get_logs w e s = Inr logs"
        by (simp add: get_transfer_events_def split: sum.splits)
      have P': "P (snd (scan_logs A b logs))"
        using "1.prems" step[OF _ g] by (rule scan_logs_invariant)
      obtain x b' where sl: "scan_logs A b logs = (x, b')" by (cases "scan_logs A b logs")
      with P' have Pb': "P b'" by simp
      show ?thesis
      proof (cases x)
        case None
        have "P (fst (scan_loop w A (e - 1) l b' (calls @ [GetLogs e s])))"
          using True Pb' by (intro "1.IH") (simp_all add: e_def)
        then show ?thesis using True Inr sl None by (simp add: scan_loop_step e_def)
      next
        case (Some exn)
        then show ?thesis using True Inr sl Pb' by (simp add: scan_loop_step e_def)
      qed
    qed
  qed
qed

lemma scan_loop_nonneg:
  "fst (scan_loop w A s l None calls) = Some n \<Longrightarrow> 0 \<le> n"
proof -
  have "\<forall>n. fst (scan_loop w A s l None calls) = Some n \<longrightarrow> 0 \<le> n"
    by (rule scan_loop_invariant[where P = "\<lambda>b. \<forall>n. b = Some n \<longrightarrow> 0 \<le> n"])
       (auto simp: or0_def split: option.splits)
  then show "fst (scan_loop w A s l None calls) = Some n \<Longrightarrow> 0 \<le> n" by blast
qed

lemma scan_loop_block_zero:
  assumes "\<forall>lo hi logs log. get_logs w lo hi = Inr logs \<and> log \<in> set logs \<and> touches A log
             \<longrightarrow> blockNumber log \<le> 0"
  shows "fst (scan_loop w A s l None calls) = None \<or> fst (scan_loop w A s l None calls) = Some 0"
proof (rule scan_loop_invariant[where P = "\<lambda>b. b = None \<or> b = Some 0"])
  show "None = None \<or> None = Some (0::int)" by simp
next
  fix b :: "int option" and lo hi logs log
  assume "b = None \<or> b = Some 0" "get_logs w lo hi = Inr logs" "log \<in> set logs" "touches A log"
  with assms have "blockNumber log \<le> 0" "or0 b = 0" by (auto simp: or0_def)
  then show "Some (max (or0 b) (blockNumber log)) = None \<or>
             Some (max (or0 b) (blockNumber log)) = Some 0" by simp
qed

lemma scan_loop_only_get_logs:
  "GetBlock n \<notin> set (snd (scan_loop w A s l b []))"
  by (auto simp: scan_loop_calls)

lemma resolve_date_no_hit:
  "b = None \<or> b = Some 0 \<Longrightarrow> resolve_date w (b, calls) = (NA, calls)"
  by (auto simp: resolve_date_def)

lemma resolve_date_calls:
  "snd (resolve_date w (b, calls)) =
     (case b of None \<Rightarrow> calls | Some n \<Rightarrow> if n \<noteq> 0 then calls @ [GetBlock n] else calls)"
  by (auto simp: resolve_date_def split: option.splits sum.splits)

text \<open>
  Claim C4, as stated, fails. The newest range of \<open>flaky_web3\<close> fails; the query
  returns \<^verbatim>\<open>'N/A'\<close> after that one fetch and never fetches the range \<open>[1, 50000]\<close>, which
  holds a transfer from the address.
\<close>

theorem scan_aborts_counterexample:
  "get_last_transaction_date flaky_web3 ''0x00000000000000000000000000000000000000aa'' =
     Inr (NA, [GetLogs 50001 100000]) \<and>
   tasks_loop 100000 (max (100000 - 1000000) 0) = [(50001, 100000), (1, 50000)] \<and>
   get_logs flaky_web3 1 50000 = Inr [transfer_log 0xaa 0xbb 100 10]"
  by code_simp

text \<open>What the scan has found: the block numbers of the scanned logs that touch the
  address, merged in the order the logs are read.\<close>

lemma merge_blocks_append:
  "merge_blocks (merge_blocks b bs1) bs2 = merge_blocks b (bs1 @ bs2)"
  by (simp add: merge_blocks_def or0_def)

lemma merge_blocks_Cons:
  "merge_blocks (Some (max (or0 b) n)) bs = merge_blocks b (n # bs)"
  by (simp add: merge_blocks_def or0_def max.commute)

lemma merge_blocks_None:
  "merge_blocks None (map blockNumber (filter (touches A) logs)) = last_touching_block A logs"
  by (simp add: merge_blocks_def last_touching_block_def Let_def or0_def Max.set_eq_fold
           del: set_simps)

lemma touches_test:
  "3 \<le> length (topics log) \<Longrightarrow> topic_address log 1 = Inr f \<Longrightarrow> topic_address log 2 = Inr t \<Longrightarrow>
     (A = f \<or> A = t) = touches A log"
  by (auto simp: touches_def)

lemma scan_logs_result:
  "snd (scan_logs A b logs) =
     merge_blocks b (map blockNumber
       (filter (touches A) (takeWhile (\<lambda>log. 3 \<le> length (topics log)) logs)))"
proof (induction logs arbitrary: b)
  case Nil
  then show ?case by (simp add: merge_blocks_def)
next
  case (Cons log logs)
  show ?case
  proof (cases "3 \<le> length (topics log)")
    case False
    then have "snd (scan_logs A b (log # logs)) = b"
      by (auto simp: topic_address_def split: sum.splits)
    then show ?thesis using False by (simp add: merge_blocks_def)
  next
    case True
    then obtain f t where ft: "topic_address log 1 = Inr f" "topic_address log 2 = Inr t"
      by (auto simp: topic_address_def)
    show ?thesis
    proof (cases "touches A log")
      case touch: True
      then have "A = f \<or> A = t" using touches_test[OF True ft] by simp
      then have "snd (scan_logs A b (log # logs)) =
                 snd (scan_logs A (Some (max (or0 b) (blockNumber log))) logs)"
        using ft by simp
      then show ?thesis using True touch
        by (simp add: Cons.IH merge_blocks_Cons)
    next
      case notouch: False
      then have "\<not> (A = f \<or> A = t)" using touches_test[OF True ft] by simp
      then have "snd (scan_logs A b (log # logs)) = snd (scan_logs A b logs)"
        using ft by simp
      then show ?thesis using True notouch by (simp add: Cons.IH)
    qed
  qed
qed

lemma scan_loop_result:
  "fst (scan_loop w A s l b calls) =
     merge_blocks b (map blockNumber (filter (touches A) (scanned_logs w (tasks_loop s l))))"
proof (induction s l arbitrary: b calls rule: tasks_loop.induct)
  case (1 s l)
  let ?wf = "\<lambda>log. 3 \<le> length (topics log)"
  show ?case
  proof (cases "l < s")
    case False
    then show ?thesis by (simp add: scan_loop_done tasks_loop_done merge_blocks_def)
  next
    case True
    define e where "e = max (s - BLOCK_RANGE + 1) l"
    have unfold: "tasks_loop s l = (e, s) # tasks_loop (e - 1) l"
      using True by (simp add: tasks_loop_unfold e_def)
    show ?thesis
    proof (cases "get_logs w e s")
      case (Inl x)
      then have "get_transfer_events w e s = Inl x" by (simp add: get_transfer_events_def)
      then have "fst (scan_loop w A s l b calls) = b"
        using True by (simp add: scan_loop_step e_def)
      then show ?thesis using Inl by (simp add: unfold merge_blocks_def)
    next
      case (Inr logs)
      then have gte: "get_transfer_events w e s = Inr logs" by (simp add: get_transfer_events_def)
      obtain x b' where sl: "scan_logs A b logs = (x, b')" by (cases "scan_logs A b logs")
      have b': "b' = merge_blocks b (map blockNumber (filter (touches A) (takeWhile ?wf logs)))"
        using scan_logs_result[of A b logs] sl by simp
      have x: "x = None \<longleftrightarrow> list_all ?wf logs"
        using scan_logs_exn[of A b logs] sl by (simp add: list_all_iff)
      show ?thesis
      proof (cases "list_all ?wf logs")
        case False
        then obtain ex where "x = Some ex" using x by (cases x) auto
        then have "fst (scan_loop w A s l b calls) = b'"
          using True gte sl by (simp add: scan_loop_step e_def)
        then show ?thesis using False Inr b' by (simp add: unfold)
      next
        case all: True
        then have tw: "takeWhile ?wf logs = logs" by (simp add: list_all_iff)
        from all x have "x = None" by simp
        then have "fst (scan_loop w A s l b calls) =
                   fst (scan_loop w A (e - 1) l b' (calls @ [GetLogs e s]))"
          using True gte sl by (simp add: scan_loop_step e_def)
        also have "\<dots> = merge_blocks b' (map blockNumber
                     (filter (touches A) (scanned_logs w (tasks_loop (e - 1) l))))"
          using "1.IH"[OF True refl, of b' "calls @ [GetLogs e s]"] by (simp add: e_def)
        also have "\<dots> = merge_blocks b (map blockNumber
                     (filter (touches A) (logs @ scanned_logs w (tasks_loop (e - 1) l))))"
          by (simp add: b' tw merge_blocks_append)
        finally show ?thesis using all Inr by (simp add: unfold)
      qed
    qed
  qed
qed

text \<open>
  Claim C4, amended. A failure inside the \<^verbatim>\<open>try\<close> of a range (an \<^verbatim>\<open>Exception\<close> raised
  by the fetch or by reading a log) is absorbed, in that the query still returns, but it
  ends the scan. The ranges are fetched newest first up to and including the first one
  that fails and no older range is fetched. The result is what lines 163-171 give for
  the logs scanned before the failure: for the largest of 0 and the block numbers of the
  scanned logs that touch the address, or for \<^verbatim>\<open>None\<close> when no scanned log touches it.
\<close>

theorem scan_stops_at_first_failure:
  assumes "block_number w = Inr latest"
  shows "get_last_transaction_date w A =
           Inr (resolve_date w
                  (last_touching_block A
                     (scanned_logs w (tasks_loop latest (max (latest - 1000000) 0))),
                   map (\<lambda>(lo, hi). GetLogs lo hi)
                     (takeWhile (chunk_ok w A) (tasks_loop latest (max (latest - 1000000) 0)) @
                      take 1 (dropWhile (chunk_ok w A)
                                (tasks_loop latest (max (latest - 1000000) 0))))))"
proof -
  let ?scan = "scan_loop w A latest (max (latest - 1000000) 0) None []"
  have 1: "fst ?scan =
      last_touching_block A (scanned_logs w (tasks_loop latest (max (latest - 1000000) 0)))"
    by (simp only: scan_loop_result merge_blocks_None)
  have 2: "snd ?scan = map (\<lambda>(lo, hi). GetLogs lo hi)
                     (takeWhile (chunk_ok w A) (tasks_loop latest (max (latest - 1000000) 0)) @
                      take 1 (dropWhile (chunk_ok w A)
                                (tasks_loop latest (max (latest - 1000000) 0))))"
    using scan_loop_calls[of w A latest "max (latest - 1000000) 0" None "[]"] by simp
  have "?scan = (fst ?scan, snd ?scan)" by simp
  then have "get_last_transaction_date w A = Inr (resolve_date w (fst ?scan, snd ?scan))"
    by (simp add: get_last_transaction_date_def assms Let_def)
  then show ?thesis by (simp only: 1 2)
qed

theorem scan_stops_at_first_failure_witness:
  "block_number hit_then_fail_web3 = Inr 150000 \<and>
   tasks_loop 150000 (max (150000 - 1000000) 0) =
     [(100001, 150000), (50001, 100000), (1, 50000)] \<and>
   scanned_logs hit_then_fail_web3 [(100001, 150000), (50001, 100000), (1, 50000)] =
     [transfer_log 0xaa 0xbb 100 120000] \<and>
   last_touching_block ''0x00000000000000000000000000000000000000aa''
     [transfer_log 0xaa 0xbb 100 120000] = Some 120000 \<and>
   get_last_transaction_date hit_then_fail_web3 ''0x00000000000000000000000000000000000000aa'' =
     Inr (Iso 1700000000, [GetLogs 100001 150000, GetLogs 50001 100000, GetBlock 120000])"
proof -
  have b: "block_number hit_then_fail_web3 = Inr 150000" by (simp add: hit_then_fail_web3_def)
  have t: "tasks_loop 150000 (max (150000 - 1000000) 0) =
     [(100001, 150000), (50001, 100000), (1, 50000)]"
    by code_simp
  have s: "scanned_logs hit_then_fail_web3 [(100001, 150000), (50001, 100000), (1, 50000)] =
     [transfer_log 0xaa 0xbb 100 120000]"
    by code_simp
  have l: "last_touching_block ''0x00000000000000000000000000000000000000aa''
     [transfer_log 0xaa 0xbb 100 120000] = Some 120000"
    by code_simp
  have r: "resolve_date hit_then_fail_web3
             (Some 120000,
              map (\<lambda>(lo, hi). GetLogs lo hi)
                (takeWhile (chunk_ok hit_then_fail_web3 ''0x00000000000000000000000000000000000000aa'')
                   [(100001, 150000), (50001, 100000), (1, 50000)] @
                 take 1 (dropWhile
                   (chunk_ok hit_then_fail_web3 ''0x00000000000000000000000000000000000000aa'')
                   [(100001, 150000), (50001, 100000), (1, 50000)]))) =
           (Iso 1700000000, [GetLogs 100001 150000, GetLogs 50001 100000, GetBlock 120000])"
    by code_simp
  have "get_last_transaction_date hit_then_fail_web3 ''0x00000000000000000000000000000000000000aa'' =
     Inr (Iso 1700000000, [GetLogs 100001 150000, GetLogs 50001 100000, GetBlock 120000])"
    using scan_stops_at_first_failure[OF b, of "''0x00000000000000000000000000000000000000aa''"]
    by (simp only: t s l r)
  with b t s l show ?thesis by (intro conjI)
qed

text \<open>
  Claim C5, as stated, fails. With a matching log in block 3 and a failing block lookup
  the query returns \<^verbatim>\<open>'N/A'\<close>; with no log at all it returns \<^verbatim>\<open>'N/A'\<close> too. The two
  returned values are the same.
\<close>

theorem unknown_not_distinct_counterexample:
  "get_last_transaction_date no_block_web3 ''0x00000000000000000000000000000000000000aa'' =
     Inr (NA, [GetLogs 0 5, GetBlock 3]) \<and>
   get_last_transaction_date empty_web3 ''0x00000000000000000000000000000000000000aa'' =
     Inr (NA, [GetLogs 0 5]) \<and>
   map_sum id fst
     (get_last_transaction_date no_block_web3 ''0x00000000000000000000000000000000000000aa'') =
   map_sum id fst
     (get_last_transaction_date empty_web3 ''0x00000000000000000000000000000000000000aa'')"
proof -
  have 1: "get_last_transaction_date no_block_web3 ''0x00000000000000000000000000000000000000aa'' =
     Inr (NA, [GetLogs 0 5, GetBlock 3])" by code_simp
  have 2: "get_last_transaction_date empty_web3 ''0x00000000000000000000000000000000000000aa'' =
     Inr (NA, [GetLogs 0 5])" by code_simp
  show ?thesis unfolding 1 2 by simp
qed

text \<open>
  Claim C5, amended. When the scan found a block \<open>n \<noteq> 0\<close> and \<^verbatim>\<open>get_block(n)\<close> raises,
  the query does not raise: it returns \<^verbatim>\<open>'N/A'\<close>, the value it also returns when the scan
  found no matching log.
\<close>

theorem get_block_failure_gives_NA:
  assumes "block_number w = Inr latest"
    and "scan_loop w A latest (max (latest - 1000000) 0) None [] = (b, calls)"
  shows "(\<forall>n e. b = Some n \<and> n \<noteq> 0 \<and> get_block w n = Inl e
            \<longrightarrow> get_last_transaction_date w A = Inr (NA, calls @ [GetBlock n])) \<and>
         (b = None \<longrightarrow> get_last_transaction_date w A = Inr (NA, calls))"
proof -
  have res: "get_last_transaction_date w A = Inr (resolve_date w (b, calls))"
    by (simp add: get_last_transaction_date_def assms Let_def)
  show ?thesis unfolding res by (auto simp: resolve_date_def)
qed

theorem get_block_failure_gives_NA_witness:
  "block_number no_block_web3 = Inr 5 \<and>
   scan_loop no_block_web3 ''0x00000000000000000000000000000000000000aa'' 5
     (max (5 - 1000000) 0) None [] = (Some 3, [GetLogs 0 5]) \<and>
   get_block no_block_web3 3 = Inl (BackendError ''timeout'') \<and>
   get_last_transaction_date no_block_web3 ''0x00000000000000000000000000000000000000aa'' =
     Inr (NA, [GetLogs 0 5, GetBlock 3])"
proof -
  have b: "block_number no_block_web3 = Inr 5" by (simp add: no_block_web3_def)
  have s: "scan_loop no_block_web3 ''0x00000000000000000000000000000000000000aa'' 5
     (max (5 - 1000000) 0) None [] = (Some 3, [GetLogs 0 5])"
    by code_simp
  have g: "get_block no_block_web3 3 = Inl (BackendError ''timeout'')"
    by (simp add: no_block_web3_def)
  have n: "Some (3::int) = Some 3 \<and> (3::int) \<noteq> 0 \<and>
           get_block no_block_web3 3 = Inl (BackendError ''timeout'')"
    using g by simp
  from get_block_failure_gives_NA[OF b s, THEN conjunct1, rule_format, OF n]
  have "get_last_transaction_date no_block_web3 ''0x00000000000000000000000000000000000000aa'' =
     Inr (NA, [GetLogs 0 5] @ [GetBlock 3])" .
  then have "get_last_transaction_date no_block_web3 ''0x00000000000000000000000000000000000000aa'' =
     Inr (NA, [GetLogs 0 5, GetBlock 3])" by simp
  with b s g show ?thesis by (intro conjI)
qed

text \<open>
  Claim C10. Once the latest block number is known the query returns. If no log touching
  the address lies above block 0 (the most recent one is in block 0, or there is none),
  or if the scan ends with \<^verbatim>\<open>last_transaction_block = 0\<close>, it returns \<^verbatim>\<open>'N/A'\<close> and
  never calls \<^verbatim>\<open>get_block\<close>. A call \<^verbatim>\<open>get_block(n)\<close> is made only for the block \<open>n\<close> the
  scan found, and only when \<open>n\<close> is strictly positive.
\<close>

theorem block_zero_is_no_hit:
  assumes "block_number w = Inr latest"
  shows "\<exists>d calls. get_last_transaction_date w A = Inr (d, calls) \<and>
     ((\<forall>lo hi logs log. get_logs w lo hi = Inr logs \<and> log \<in> set logs \<and> touches A log
          \<longrightarrow> blockNumber log \<le> 0)
        \<longrightarrow> d = NA \<and> (\<forall>n. GetBlock n \<notin> set calls)) \<and>
     (fst (scan_loop w A latest (max (latest - 1000000) 0) None []) = Some 0
        \<longrightarrow> d = NA \<and> (\<forall>n. GetBlock n \<notin> set calls)) \<and>
     (\<forall>n. GetBlock n \<in> set calls
        \<longrightarrow> 0 < n \<and> fst (scan_loop w A latest (max (latest - 1000000) 0) None []) = Some n)"
proof -
  let ?scan = "scan_loop w A latest (max (latest - 1000000) 0) None []"
  obtain b tr where scan: "?scan = (b, tr)" by (cases ?scan)
  have tr: "GetBlock n \<notin> set tr" for n
    using scan_loop_only_get_logs[of n w A latest "max (latest - 1000000) 0" None] scan by simp
  have res: "get_last_transaction_date w A = Inr (resolve_date w (b, tr))"
    by (simp add: get_last_transaction_date_def assms Let_def scan)
  obtain d calls where dc: "resolve_date w (b, tr) = (d, calls)" by (cases "resolve_date w (b, tr)")
  have nohit: "d = NA \<and> (\<forall>n. GetBlock n \<notin> set calls)" if "b = None \<or> b = Some 0"
    using resolve_date_no_hit[OF that, of w tr] dc tr by simp
  have 1: "d = NA \<and> (\<forall>n. GetBlock n \<notin> set calls)"
    if "\<forall>lo hi logs log. get_logs w lo hi = Inr logs \<and> log \<in> set logs \<and> touches A log
          \<longrightarrow> blockNumber log \<le> 0"
    using scan_loop_block_zero[OF that, of latest "max (latest - 1000000) 0" "[]"] scan nohit
    by simp
  have 2: "d = NA \<and> (\<forall>n. GetBlock n \<notin> set calls)" if "fst ?scan = Some 0"
    using that scan nohit by simp
  have 3: "0 < n \<and> fst ?scan = Some n" if "GetBlock n \<in> set calls" for n
  proof -
    have "calls = (case b of None \<Rightarrow> tr | Some m \<Rightarrow> if m \<noteq> 0 then tr @ [GetBlock m] else tr)"
      using resolve_date_calls[of w b tr] dc by simp
    with that tr have b: "b = Some n" "n \<noteq> 0"
      by (auto split: option.splits if_splits)
    moreover have "0 \<le> n"
      using scan_loop_nonneg[of w A latest "max (latest - 1000000) 0" "[]" n] scan b by simp
    ultimately show ?thesis using scan by simp
  qed
  from 1 2 3 show ?thesis unfolding res dc by blast
qed

theorem block_zero_is_no_hit_witness:
  "block_number block0_web3 = Inr 5 \<and>
   get_logs block0_web3 0 5 = Inr [transfer_log 0xaa 0xbb 100 0] \<and>
   get_block block0_web3 0 = Inr 1700000000 \<and>
   get_last_transaction_date block0_web3 ''0x00000000000000000000000000000000000000aa'' =
     Inr (NA, [GetLogs 0 5]) \<and>
   (\<exists>calls. get_last_transaction_date block0_web3 ''0x00000000000000000000000000000000000000aa'' =
     Inr (NA, calls) \<and> (\<forall>n. GetBlock n \<notin> set calls))"
proof -
  have b: "block_number block0_web3 = Inr 5" by (simp add: block0_web3_def)
  have g: "get_logs block0_web3 0 5 = Inr [transfer_log 0xaa 0xbb 100 0]"
    by (simp add: block0_web3_def)
  have k: "get_block block0_web3 0 = Inr 1700000000" by (simp add: block0_web3_def)
  have e: "get_last_transaction_date block0_web3 ''0x00000000000000000000000000000000000000aa'' =
     Inr (NA, [GetLogs 0 5])"
    by code_simp
  have H: "\<forall>lo hi logs log. get_logs block0_web3 lo hi = Inr logs \<and> log \<in> set logs \<and>
             touches ''0x00000000000000000000000000000000000000aa'' log
             \<longrightarrow> blockNumber log \<le> 0"
    by (auto simp: block0_web3_def transfer_log_def)
  from block_zero_is_no_hit[OF b, of "''0x00000000000000000000000000000000000000aa''"] H
  have "\<exists>calls. get_last_transaction_date block0_web3 ''0x00000000000000000000000000000000000000aa'' =
     Inr (NA, calls) \<and> (\<forall>n. GetBlock n \<notin> set calls)"
    by blast
  with b g k e show ?thesis by blast
qed

end
